theory Spec2Isabelle
  imports Main "HOL-Library.Word" "HOL-Library.Sublist" "HOL-Library.AList"
begin

unbundle bit_operations_syntax

section \<open>The content-addressable store of \<^verbatim>\<open>cas.go\<close>\<close>

text \<open>
  A shallow embedding of \<^verbatim>\<open>rocket/cas/cas.go\<close>. Go byte slices are lists of
  8-bit words, Go strings are HOL strings (lists of bytes), a panic and every error
  return is a value of a sum type.
\<close>

subsection \<open>Constants (lines 38-50)\<close>

type_synonym byte = "8 word"

definition hashPrefix :: string where
  "hashPrefix = ''sha512-''"

definition lenHash :: nat where
  \<comment> \<open>\<^verbatim>\<open>sha512.Size\<close>, the raw byte size of a SHA-512 sum\<close>
  "lenHash = 64"

definition lenHashKey :: nat where
  \<comment> \<open>half length, in hex characters\<close>
  "lenHashKey = (lenHash div 2) * 2"

definition lenKey :: nat where
  "lenKey = length hashPrefix + lenHashKey"

subsection \<open>Formatting with \<^verbatim>\<open>%x\<close> and slicing\<close>

definition ldigits :: string where
  \<comment> \<open>the digit table of Go's \<^verbatim>\<open>fmt\<close> package\<close>
  "ldigits = ''0123456789abcdefx''"

definition hex_byte :: "byte \<Rightarrow> string" where
  \<comment> \<open>\<^verbatim>\<open>%x\<close> on one byte: \<^verbatim>\<open>digits[c>>4], digits[c&0xF]\<close>\<close>
  "hex_byte c = [ldigits ! unat (drop_bit 4 c), ldigits ! unat (c AND 0xF)]"

definition hex :: "byte list \<Rightarrow> string" where
  \<comment> \<open>\<^verbatim>\<open>fmt.Sprintf("%x", k)\<close> for a byte slice \<^verbatim>\<open>k\<close>\<close>
  "hex k = concat (map hex_byte k)"

datatype panic =
    BadHash string          \<comment> \<open>\<^verbatim>\<open>bad hash passed to hashToKey: %x\<close>\<close>
  | SliceOutOfRange         \<comment> \<open>the runtime's bounds check of \<^verbatim>\<open>s[0:hi]\<close>\<close>

definition slice_upto :: "string \<Rightarrow> nat \<Rightarrow> panic + string" where
  \<comment> \<open>Go's \<^verbatim>\<open>s[0:hi]\<close>, which panics when \<^verbatim>\<open>hi > len(s)\<close>\<close>
  "slice_upto s hi = (if length s < hi then Inl SliceOutOfRange else Inr (take hi s))"

subsection \<open>Key codec (lines 295-309)\<close>

definition keyToString :: "byte list \<Rightarrow> panic + string" where
  "keyToString k =
     (if length k \<noteq> lenHash then Inl (BadHash (hex k))
      else slice_upto (hashPrefix @ hex k) lenKey)"

text \<open>
  A \<^verbatim>\<open>hash.Hash\<close>: the bytes written to it so far and the function its
  \<^verbatim>\<open>Sum\<close> method computes from them.
\<close>

record Hash =
  digest_of :: "byte list \<Rightarrow> byte list"
  written :: "byte list"

definition Sum :: "Hash \<Rightarrow> byte list" where
  \<comment> \<open>\<^verbatim>\<open>h.Sum(nil)\<close>\<close>
  "Sum h = digest_of h (written h)"

definition HashToKey :: "Hash \<Rightarrow> panic + string" where
  "HashToKey h = (let s = Sum h in keyToString s)"

definition is_lower_hex :: "char \<Rightarrow> bool" where
  "is_lower_hex c = (c \<in> set ''0123456789abcdef'')"

subsection \<open>Errors\<close>

text \<open>
  A Go \<^verbatim>\<open>error\<close> of a collaborator is its message. Every \<^verbatim>\<open>fmt.Errorf\<close> of
  the file is a constructor that carries the values it formats; a panic that escapes
  is \<open>Panicked\<close>.
\<close>

datatype error =
    Err string                      \<comment> \<open>a collaborator's error, returned as it is\<close>
  | ErrReadingHeader string         \<comment> \<open>\<^verbatim>\<open>error reading image header: %v\<close>\<close>
  | ErrDetecting string             \<comment> \<open>\<^verbatim>\<open>error detecting image type: %v\<close>\<close>
  | ErrDecompressing string         \<comment> \<open>\<^verbatim>\<open>error decompressing image: %v\<close>\<close>
  | ErrCreating string              \<comment> \<open>\<^verbatim>\<open>error creating image: %v\<close>\<close>
  | ErrCopying string               \<comment> \<open>\<^verbatim>\<open>error copying image: %v\<close>\<close>
  | ErrExtractingManifest string    \<comment> \<open>\<^verbatim>\<open>error extracting image manifest: %v\<close>\<close>
  | ErrClosing string               \<comment> \<open>\<^verbatim>\<open>error closing image: %v\<close>\<close>
  | ErrImporting string             \<comment> \<open>\<^verbatim>\<open>error importing image: %v\<close>\<close>
  | ErrMarshalling string           \<comment> \<open>\<^verbatim>\<open>error marshalling image manifest: %v\<close>\<close>
  | ErrImportingManifest string     \<comment> \<open>\<^verbatim>\<open>error importing image manifest: %v\<close>\<close>
  | ErrWritingACIInfo string        \<comment> \<open>\<^verbatim>\<open>error writing ACI Info: %v\<close>\<close>
  | ErrRetrievingManifest string    \<comment> \<open>\<^verbatim>\<open>error retrieving image manifest: %v\<close>\<close>
  | ErrUnmarshalling string         \<comment> \<open>\<^verbatim>\<open>error unmarshalling image manifest: %v\<close>\<close>
  | NoKeysFound                     \<comment> \<open>\<^verbatim>\<open>no keys found\<close>\<close>
  | AmbiguousKey string             \<comment> \<open>\<^verbatim>\<open>ambiguous key: %q\<close>\<close>
  | VersionLesser int int           \<comment> \<open>\<^verbatim>\<open>Current cas db version: %d lesser than ...: %d\<close>\<close>
  | VersionGreater int int          \<comment> \<open>\<^verbatim>\<open>Current cas db version: %d greater than ...: %d\<close>\<close>
  | Panicked panic

subsection \<open>Streams\<close>

text \<open>
  An \<^verbatim>\<open>io.Reader\<close> is the bytes it delivers and how it ends: with \<^verbatim>\<open>io.EOF\<close>
  or with another error.
\<close>

datatype ioerr = EOF | Other string

record reader =
  data :: "byte list"
  ending :: ioerr

definition Peek :: "nat \<Rightarrow> reader \<Rightarrow> byte list \<times> ioerr option" where
  \<comment> \<open>\<^verbatim>\<open>bufio.Reader.Peek(n)\<close> on a fresh buffer of size \<open>n\<close>: the next \<open>n\<close> bytes, or
     all there are together with the error that ended the stream. Nothing is consumed.\<close>
  "Peek n r =
     (if n \<le> length (data r) then (take n (data r), None)
      else (data r, Some (ending r)))"

definition Copy_tee :: "string option \<Rightarrow> reader \<Rightarrow> Hash \<Rightarrow> string + (byte list \<times> Hash)" where
  \<comment> \<open>\<^verbatim>\<open>io.Copy(fh, io.TeeReader(dr, h))\<close>: every byte read from \<open>dr\<close> goes to the hash
     and to the file; \<open>werr\<close> is the error of a failing write to the file, if one fails.
     The result is the file's content and the hash.\<close>
  "Copy_tee werr dr h =
     (case (if data dr = [] then None else werr) of
        Some e \<Rightarrow> Inl e
      | None \<Rightarrow>
         (case ending dr of
            Other e \<Rightarrow> Inl e
          | EOF \<Rightarrow> Inr (data dr, h\<lparr>written := written h @ data dr\<rparr>)))"

subsection \<open>Collaborators\<close>

text \<open>
  What \<^verbatim>\<open>cas.go\<close> calls and does not define is a parameter: the archive functions
  (type \<open>'t\<close> is \<^verbatim>\<open>aci.FileType\<close>, type \<open>'m\<close> is \<^verbatim>\<open>schema.ImageManifest\<close>), the
  functions of the package's database file (type \<open>'d\<close> is the content of the database
  a transaction sees), and the outcome of the operating-system calls of one run.
\<close>

record ('t, 'm) collab =
  DetectFileType :: "byte list \<Rightarrow> string + 't"
  decompress :: "reader \<Rightarrow> 't \<Rightarrow> string + reader"
  sha512 :: "byte list \<Rightarrow> byte list"
  ManifestFromImage :: "byte list \<Rightarrow> string + 'm"
  Marshal :: "'m \<Rightarrow> string + byte list"
  Unmarshal :: "byte list \<Rightarrow> string + 'm"
  Name_String :: "'m \<Rightarrow> string"

record ACIInfo =
  BlobKey :: string
  AppName :: string
  ImportTime :: int

record 'd dbops =
  NewDB :: "string list \<Rightarrow> string + 'd"
  dbIsPopulated :: "'d \<Rightarrow> string + bool"
  dbCreateStmts :: "string list"
  Exec :: "string \<Rightarrow> 'd \<Rightarrow> string + 'd"
  getDBVersion :: "'d \<Rightarrow> string + int"
  dbVersion :: int
  WriteACIInfo :: "ACIInfo \<Rightarrow> 'd \<Rightarrow> string + 'd"

record oscalls =
  tmpFile_err :: "string option"    \<comment> \<open>\<^verbatim>\<open>ds.tmpFile()\<close>\<close>
  Copy_err :: "string option"       \<comment> \<open>a write of \<^verbatim>\<open>io.Copy\<close> to the temporary file\<close>
  Close_err :: "string option"      \<comment> \<open>\<^verbatim>\<open>fh.Close()\<close>\<close>
  Import_err :: "string option"     \<comment> \<open>\<^verbatim>\<open>stores[blobType].Import\<close>\<close>
  Write_err :: "string option"      \<comment> \<open>\<^verbatim>\<open>stores[imageManifestType].Write\<close>\<close>
  Now :: int                        \<comment> \<open>\<^verbatim>\<open>time.Now()\<close>\<close>

definition sha512_New :: "('t, 'm) collab \<Rightarrow> Hash" where
  "sha512_New c = \<lparr>digest_of = sha512 c, written = []\<rparr>"

definition Do :: "('d \<Rightarrow> 'e + 'd) \<Rightarrow> 'd \<Rightarrow> 'e option \<times> 'd" where
  \<comment> \<open>Modelled from the spec: \<^verbatim>\<open>DB.Do\<close> is not in \<^verbatim>\<open>cas.go\<close>. It executes the function
     atomically, commits when it returns no error and rolls back when it returns one.\<close>
  "Do fn d = (case fn d of Inl e \<Rightarrow> (Some e, d) | Inr d' \<Rightarrow> (None, d'))"

subsection \<open>The key-value engine\<close>

text \<open>
  The engine \<^verbatim>\<open>diskv\<close> is not in \<^verbatim>\<open>cas.go\<close>. A namespace is the keys it holds with
  their values. An operation that writes takes the error of the operating system, if
  the write fails; it then leaves the namespace as it was.
\<close>

type_synonym namespace = "(string \<times> byte list) list"

definition KeysPrefix :: "namespace \<Rightarrow> string \<Rightarrow> string list" where
  \<comment> \<open>Modelled from the spec: \<^verbatim>\<open>KeysPrefix(prefix, cancel)\<close> of diskv is not in \<^verbatim>\<open>cas.go\<close>.
     The keys of the namespace that have the prefix, as the channel delivers them when
     it is read to its end.\<close>
  "KeysPrefix ns p = filter (prefix p) (map fst ns)"

definition Read :: "namespace \<Rightarrow> string \<Rightarrow> string + byte list" where
  \<comment> \<open>Modelled from the spec: \<^verbatim>\<open>Read\<close> of diskv is not in \<^verbatim>\<open>cas.go\<close>. The value stored
     under the key; it fails when the key is absent.\<close>
  "Read ns key = (case map_of ns key of None \<Rightarrow> Inl ''not found'' | Some v \<Rightarrow> Inr v)"

definition ReadStream_diskv :: "namespace \<Rightarrow> string \<Rightarrow> string + reader" where
  \<comment> \<open>Modelled from the spec: \<^verbatim>\<open>ReadStream\<close> of diskv is not in \<^verbatim>\<open>cas.go\<close>. A stream of
     the value stored under the key.\<close>
  "ReadStream_diskv ns key =
     (case Read ns key of Inl e \<Rightarrow> Inl e | Inr v \<Rightarrow> Inr \<lparr>data = v, ending = EOF\<rparr>)"

definition Write :: "string option \<Rightarrow> string \<Rightarrow> byte list \<Rightarrow> namespace \<Rightarrow> string + namespace" where
  \<comment> \<open>Modelled from the spec: \<^verbatim>\<open>Write\<close> of diskv is not in \<^verbatim>\<open>cas.go\<close>. It stores the
     value under the key and overwrites what was there.\<close>
  "Write err key val ns =
     (case err of Some e \<Rightarrow> Inl e | None \<Rightarrow> Inr (AList.update key val ns))"

definition Import :: "string option \<Rightarrow> byte list \<Rightarrow> string \<Rightarrow> namespace \<Rightarrow> string + namespace" where
  \<comment> \<open>Modelled from the spec: \<^verbatim>\<open>Import\<close> of diskv is not in \<^verbatim>\<open>cas.go\<close>. It moves a file
     of the disk, given by its content, into the namespace under the key.\<close>
  "Import err file key ns =
     (case err of Some e \<Rightarrow> Inl e | None \<Rightarrow> Inr (AList.update key file ns))"

definition WriteStream_diskv :: "string option \<Rightarrow> string \<Rightarrow> reader \<Rightarrow> namespace \<Rightarrow> string + namespace" where
  \<comment> \<open>Modelled from the spec: \<^verbatim>\<open>WriteStream\<close> of diskv is not in \<^verbatim>\<open>cas.go\<close>. It stores
     what the stream delivers under the key; an error of the stream is returned.\<close>
  "WriteStream_diskv err key r ns =
     (case ending r of
        Other e \<Rightarrow> Inl e
      | EOF \<Rightarrow> Write err key (data r) ns)"

subsection \<open>The store (lines 57-62)\<close>

record 'd Store =
  base :: string
  blob :: namespace              \<comment> \<open>\<^verbatim>\<open>stores[blobType]\<close>\<close>
  imageManifest :: namespace     \<comment> \<open>\<^verbatim>\<open>stores[imageManifestType]\<close>\<close>
  db :: 'd

subsection \<open>\<^verbatim>\<open>NewStore\<close> (lines 64-116)\<close>

fun exec_all :: "'d dbops \<Rightarrow> string list \<Rightarrow> 'd \<Rightarrow> string + 'd" where
  "exec_all dbo [] tx = Inr tx"
| "exec_all dbo (stmt # stmts) tx =
     (case Exec dbo stmt tx of Inl e \<Rightarrow> Inl e | Inr tx' \<Rightarrow> exec_all dbo stmts tx')"

definition populate :: "'d dbops \<Rightarrow> bool \<Rightarrow> 'd \<Rightarrow> string + 'd" where
  \<comment> \<open>lines 87-95: populate the db\<close>
  "populate dbo ok tx = (if \<not> ok then exec_all dbo (dbCreateStmts dbo) tx else Inr tx)"

definition NewStore_fn :: "'d dbops \<Rightarrow> 'd \<Rightarrow> error + 'd" where
  \<comment> \<open>the closure \<^verbatim>\<open>fn\<close> of lines 82-109\<close>
  "NewStore_fn dbo tx =
     (case dbIsPopulated dbo tx of
        Inl e \<Rightarrow> Inl (Err e)
      | Inr ok \<Rightarrow>
         (case populate dbo ok tx of
            Inl e \<Rightarrow> Inl (Err e)
          | Inr tx' \<Rightarrow>
             (case getDBVersion dbo tx' of
                Inl e \<Rightarrow> Inl (Err e)
              | Inr version \<Rightarrow>
                 if version < dbVersion dbo then Inl (VersionLesser version (dbVersion dbo))
                 else if version > dbVersion dbo then Inl (VersionGreater version (dbVersion dbo))
                 else Inr tx')))"

definition NewStore :: "'d dbops \<Rightarrow> (string list \<Rightarrow> namespace) \<Rightarrow> string \<Rightarrow> error + 'd Store" where
  \<comment> \<open>\<open>diskv_New\<close> gives what the namespace at a path holds when it is opened; a path
     is the list of the parts \<^verbatim>\<open>filepath.Join\<close> joins.\<close>
  "NewStore dbo diskv_New b =
     (case NewDB dbo [b, ''cas'', ''db''] of
        Inl e \<Rightarrow> Inl (Err e)
      | Inr d \<Rightarrow>
         (case Do (NewStore_fn dbo) d of
            (Some e, _) \<Rightarrow> Inl e
          | (None, d') \<Rightarrow>
              Inr \<lparr>base = b,
                   blob = diskv_New [b, ''cas'', ''blob''],
                   imageManifest = diskv_New [b, ''cas'', ''imageManifest''],
                   db = d'\<rparr>))"

subsection \<open>\<^verbatim>\<open>ResolveKey\<close> (lines 134-159)\<close>

fun range_loop :: "string list \<Rightarrow> string \<Rightarrow> nat \<Rightarrow> string \<times> nat \<times> bool \<times> string list" where
  \<comment> \<open>the loop of lines 145-151 over the keys the channel delivers: the last value of
     \<^verbatim>\<open>k\<close>, \<^verbatim>\<open>keyCount\<close>, whether \<^verbatim>\<open>cancel\<close> was closed, and the keys never received\<close>
  "range_loop [] k keyCount = (k, keyCount, False, [])"
| "range_loop (x # xs) k keyCount =
     (if keyCount + 1 > 1 then (x, keyCount + 1, True, xs)
      else range_loop xs x (keyCount + 1))"

definition normalizeKey :: "string \<Rightarrow> string" where
  \<comment> \<open>lines 138-140\<close>
  "normalizeKey key = (if length key > lenKey then take lenKey key else key)"

definition ResolveKey :: "'d Store \<Rightarrow> string \<Rightarrow> error + string" where
  "ResolveKey ds key0 =
     (let key = normalizeKey key0;
          (k, keyCount, cancelled, unread) = range_loop (KeysPrefix (blob ds) key) [] 0
      in if keyCount = 0 then Inl NoKeysFound
         else if keyCount \<noteq> 1 then Inl (AmbiguousKey key)
         else Inr k)"

subsection \<open>\<^verbatim>\<open>ReadStream\<close>, \<^verbatim>\<open>WriteStream\<close>, \<^verbatim>\<open>GetImageManifest\<close>\<close>

definition ReadStream :: "'d Store \<Rightarrow> string \<Rightarrow> string + reader" where
  "ReadStream ds key = ReadStream_diskv (blob ds) key"

definition WriteStream :: "string option \<Rightarrow> 'd Store \<Rightarrow> string \<Rightarrow> reader \<Rightarrow> string option \<times> 'd Store" where
  \<comment> \<open>the error returned and the store afterwards; \<open>werr\<close> is the error of the write to
     disk, if it fails\<close>
  "WriteStream werr ds key r =
     (case WriteStream_diskv werr key r (blob ds) of
        Inl e \<Rightarrow> (Some e, ds)
      | Inr b \<Rightarrow> (None, ds\<lparr>blob := b\<rparr>))"

definition GetImageManifest :: "('t, 'm) collab \<Rightarrow> 'd Store \<Rightarrow> string \<Rightarrow> error + 'm" where
  "GetImageManifest c ds key =
     (case Read (imageManifest ds) key of
        Inl e \<Rightarrow> Inl (ErrRetrievingManifest e)
      | Inr imj \<Rightarrow>
         (case Unmarshal c imj of
            Inl e \<Rightarrow> Inl (ErrUnmarshalling e)
          | Inr im \<Rightarrow> Inr im))"

subsection \<open>\<^verbatim>\<open>WriteACI\<close> (lines 169-237)\<close>

definition read_image ::
  "('t, 'm) collab \<Rightarrow> oscalls \<Rightarrow> reader \<Rightarrow> error + (byte list \<times> 'm \<times> Hash)" where
  \<comment> \<open>lines 173-208: the content of the temporary file \<^verbatim>\<open>fh\<close>, the manifest \<^verbatim>\<open>im\<close>
     and the hash \<^verbatim>\<open>h\<close>. The store is not touched.\<close>
  "read_image c os r =
     (case Peek 512 r of
        (hdr, Some (Other e)) \<Rightarrow> Inl (ErrReadingHeader e)
      | (hdr, _) \<Rightarrow>
     (case DetectFileType c hdr of
        Inl e \<Rightarrow> Inl (ErrDetecting e)
      | Inr typ \<Rightarrow>
     (case decompress c r typ of
        Inl e \<Rightarrow> Inl (ErrDecompressing e)
      | Inr dr \<Rightarrow>
     (case tmpFile_err os of
        Some e \<Rightarrow> Inl (ErrCreating e)
      | None \<Rightarrow>
     (case Copy_tee (Copy_err os) dr (sha512_New c) of
        Inl e \<Rightarrow> Inl (ErrCopying e)
      | Inr (fh, h) \<Rightarrow>
     (case ManifestFromImage c fh of
        Inl e \<Rightarrow> Inl (ErrExtractingManifest e)
      | Inr im \<Rightarrow>
     (case Close_err os of
        Some e \<Rightarrow> Inl (ErrClosing e)
      | None \<Rightarrow> Inr (fh, im, h))))))))"

definition WriteACI ::
  "('t, 'm) collab \<Rightarrow> 'd dbops \<Rightarrow> oscalls \<Rightarrow> 'd Store \<Rightarrow> reader \<Rightarrow> (error + string) \<times> 'd Store" where
  \<comment> \<open>the result and the store afterwards; lines 210-236 follow \<open>read_image\<close>\<close>
  "WriteACI c dbo os ds r =
     (case read_image c os r of
        Inl e \<Rightarrow> (Inl e, ds)
      | Inr (fh, im, h) \<Rightarrow>
     (case HashToKey h of
        Inl p \<Rightarrow> (Inl (Panicked p), ds)
      | Inr key \<Rightarrow>
     (case Import (Import_err os) fh key (blob ds) of
        Inl e \<Rightarrow> (Inl (ErrImporting e), ds)
      | Inr b \<Rightarrow>
     (let ds1 = ds\<lparr>blob := b\<rparr> in
      case Marshal c im of
        Inl e \<Rightarrow> (Inl (ErrMarshalling e), ds1)
      | Inr imj \<Rightarrow>
     (case Write (Write_err os) key imj (imageManifest ds1) of
        Inl e \<Rightarrow> (Inl (ErrImportingManifest e), ds1)
      | Inr mf \<Rightarrow>
     (let ds2 = ds1\<lparr>imageManifest := mf\<rparr>;
          aciinfo = \<lparr>BlobKey = key, AppName = Name_String c im, ImportTime = Now os\<rparr>
      in case Do (WriteACIInfo dbo aciinfo) (db ds2) of
           (Some e, d) \<Rightarrow> (Inl (ErrWritingACIInfo e), ds2\<lparr>db := d\<rparr>)
         | (None, d) \<Rightarrow> (Inr key, ds2\<lparr>db := d\<rparr>)))))))"

subsection \<open>An example archive and store\<close>

text \<open>
  The data of the examples below: an image whose only file is a manifest with the
  name \<^verbatim>\<open>example-app\<close>, as 2048 bytes of tar and as 138 bytes of gzip, and the
  SHA-512 sum of the tar. The example collaborators agree with gzip, SHA-512, the ACI
  reader and JSON on this image.
\<close>

definition bytes_of :: "string \<Rightarrow> byte list" where
  \<comment> \<open>Go's \<^verbatim>\<open>[]byte(s)\<close>\<close>
  "bytes_of s = map (\<lambda>c. of_nat (of_char c)) s"

definition manifest_json :: string where
  \<open>manifest_json = ''{"acKind":"ImageManifest","acVersion":"0.1.1","name":"example-app"}''\<close>

definition image_tar :: "byte list" where
  "image_tar =
     bytes_of ''manifest'' @ replicate 92 0
     @ bytes_of ''0000644'' @ [0] @ bytes_of ''0000000'' @ [0] @ bytes_of ''0000000'' @ [0]
     @ bytes_of ''00000000103'' @ [0] @ bytes_of ''00000000000'' @ [0]
     @ bytes_of ''007470'' @ [0] @ bytes_of '' 0'' @ replicate 100 0
     @ bytes_of ''ustar'' @ [0] @ bytes_of ''00'' @ replicate 247 0
     @ bytes_of manifest_json @ replicate 1469 0"

definition image_gz :: "byte list" where
  "image_gz =
     [0x1f, 0x8b, 0x08, 0x00, 0x00, 0x00, 0x00, 0x00, 0x02, 0x03, 0xcb, 0x4d,
      0xcc, 0xcb, 0x4c, 0x4b, 0x2d, 0x2e, 0x61, 0xa0, 0x21, 0x30, 0x00, 0x02,
      0x33, 0x13, 0x13, 0x30, 0x0d, 0x04, 0xe8, 0xb4, 0x81, 0xa1, 0x81, 0x31,
      0x9c, 0x0d, 0x11, 0x37, 0x37, 0x31, 0x37, 0x60, 0x50, 0x30, 0x60, 0xa0,
      0x03, 0x28, 0x2d, 0x2e, 0x49, 0x2c, 0x02, 0x5a, 0xc9, 0x30, 0x32, 0x41,
      0xb5, 0x52, 0x62, 0xb2, 0x77, 0x66, 0x5e, 0x8a, 0x92, 0x95, 0x92, 0x67,
      0x6e, 0x62, 0x7a, 0xaa, 0x2f, 0x34, 0x3d, 0x28, 0xe9, 0x00, 0x25, 0xc2,
      0x52, 0x8b, 0x8a, 0x33, 0xf3, 0xf3, 0x80, 0x72, 0x06, 0x7a, 0x86, 0x7a,
      0x86, 0x40, 0xb1, 0xbc, 0xc4, 0xdc, 0x54, 0x20, 0x37, 0xb5, 0x22, 0x31,
      0xb7, 0x20, 0x27, 0x55, 0x37, 0xb1, 0xa0, 0x40, 0xa9, 0x96, 0x61, 0x14,
      0x8c, 0x82, 0x51, 0x30, 0x0a, 0x46, 0xc1, 0xd0, 0x03, 0x00, 0x65, 0x80,
      0x28, 0x78, 0x00, 0x08, 0x00, 0x00]"

definition image_sha512 :: "byte list" where
  "image_sha512 =
     [0x62, 0x3c, 0xf3, 0x62, 0xf2, 0xed, 0xfa, 0xed, 0xfd, 0x00, 0xa4, 0xe3,
      0x62, 0xde, 0xc3, 0x70, 0x93, 0xb5, 0xd1, 0x2e, 0x8f, 0x1e, 0x70, 0x2c,
      0xa4, 0xce, 0xf4, 0xcc, 0x66, 0x5e, 0xc0, 0xd3, 0x28, 0xfb, 0x85, 0xbc,
      0x62, 0x09, 0xdb, 0xa5, 0xa3, 0x90, 0xe4, 0x28, 0x42, 0x90, 0x2f, 0xd8,
      0x81, 0x7c, 0x39, 0x5d, 0x9e, 0x50, 0x18, 0x3d, 0x5b, 0xc1, 0x10, 0xa0,
      0x9f, 0x03, 0x68, 0x3e]"

datatype FileType = TypeGzip | TypeBzip2 | TypeXz | TypeTar | TypeUnknown

record ImageManifest =
  acKind :: string
  acVersion :: string
  name :: string

definition example_manifest :: ImageManifest where
  "example_manifest = \<lparr>acKind = ''ImageManifest'', acVersion = ''0.1.1'', name = ''example-app''\<rparr>"

definition example_collab :: "(FileType, ImageManifest) collab" where
  "example_collab =
     \<lparr>DetectFileType = (\<lambda>hdr.
        Inr (if take 2 hdr = [0x1f, 0x8b] then TypeGzip
             else if take 5 (drop 257 hdr) = bytes_of ''ustar'' then TypeTar
             else TypeUnknown)),
      decompress = (\<lambda>r typ.
        case typ of
          TypeGzip \<Rightarrow> if data r = image_gz then Inr (r\<lparr>data := image_tar\<rparr>)
                      else Inl ''gzip: invalid header''
        | TypeTar \<Rightarrow> Inr r
        | _ \<Rightarrow> Inl ''unknown file type''),
      sha512 = (\<lambda>bs. if bs = image_tar then image_sha512 else replicate 64 0),
      ManifestFromImage = (\<lambda>fh.
        if fh = image_tar then Inr example_manifest else Inl ''missing manifest''),
      Marshal = (\<lambda>im.
        if im = example_manifest then Inr (bytes_of manifest_json) else Inl ''unsupported value''),
      Unmarshal = (\<lambda>bs.
        if bs = bytes_of manifest_json then Inr example_manifest else Inl ''invalid character''),
      Name_String = name\<rparr>"

record DB =
  populated :: bool
  version :: int
  aciinfo :: "ACIInfo list"

definition example_dbops :: "DB dbops" where
  \<comment> \<open>Modelled from the spec: the schema version is written once, when the index is
     first populated; an import adds one row\<close>
  "example_dbops =
     \<lparr>NewDB = (\<lambda>path. Inr \<lparr>populated = False, version = 0, aciinfo = []\<rparr>),
      dbIsPopulated = (\<lambda>d. Inr (populated d)),
      dbCreateStmts = [''CREATE TABLE version'', ''INSERT INTO version'', ''CREATE TABLE aciinfo''],
      Exec = (\<lambda>stmt d.
        if stmt = ''INSERT INTO version'' then Inr (d\<lparr>populated := True, version := 1\<rparr>)
        else Inr d),
      getDBVersion = (\<lambda>d. Inr (version d)),
      dbVersion = 1,
      WriteACIInfo = (\<lambda>i d. Inr (d\<lparr>aciinfo := aciinfo d @ [i]\<rparr>))\<rparr>"

definition stored_dbops :: "int \<Rightarrow> DB dbops" where
  \<comment> \<open>a database that was populated earlier and stores schema version \<open>v\<close>\<close>
  "stored_dbops v =
     example_dbops\<lparr>NewDB := (\<lambda>path. Inr \<lparr>populated = True, version = v, aciinfo = []\<rparr>)\<rparr>"

definition example_store :: "DB Store" where
  "example_store =
     \<lparr>base = ''/var/lib/rkt'', blob = [], imageManifest = [],
      db = \<lparr>populated = True, version = 1, aciinfo = []\<rparr>\<rparr>"

definition no_faults :: oscalls where
  "no_faults =
     \<lparr>tmpFile_err = None, Copy_err = None, Close_err = None, Import_err = None,
      Write_err = None, Now = 1414800000\<rparr>"

definition example_key :: string where
  "example_key = ''sha512-623cf362f2edfaedfd00a4e362dec37093b5d12e8f1e702ca4cef4cc665ec0d3''"

definition gz_stream :: reader where
  "gz_stream = \<lparr>data = image_gz, ending = EOF\<rparr>"

definition tar_stream :: reader where
  "tar_stream = \<lparr>data = image_tar, ending = EOF\<rparr>"

definition imported_store :: "DB Store" where
  "imported_store =
     \<lparr>base = ''/var/lib/rkt'',
      blob = [(example_key, image_tar)],
      imageManifest = [(example_key, bytes_of manifest_json)],
      db = \<lparr>populated = True, version = 1,
            aciinfo = [\<lparr>BlobKey = example_key, AppName = ''example-app'', ImportTime = 1414800000\<rparr>]\<rparr>\<rparr>"

definition ambiguous_store :: "DB Store" where
  \<comment> \<open>two raw writes with keys that are longer than a full key\<close>
  "ambiguous_store =
     snd (WriteStream None
       (snd (WriteStream None example_store (example_key @ ''a'') tar_stream))
       (example_key @ ''b'') gz_stream)"

section \<open>Properties\<close>

subsection \<open>Hexadecimal formatting\<close>

lemma lenKey_eq: "lenKey = 71"
  by (simp add: lenKey_def lenHashKey_def lenHash_def hashPrefix_def)

lemma hi_nibble: "unat (drop_bit 4 (c::byte)) < 16"
proof -
  have "unat c < 256" using unsigned_less [of c] by simp
  then have "unat c div 16 < 16" by arith
  then show ?thesis by (simp add: drop_bit_eq_div unat_div)
qed

lemma lo_nibble: "unat ((c::byte) AND 0xF) < 16"
proof -
  have "unat (c AND 15) \<le> unat (15 :: byte)"
    by (rule word_and_le1 [THEN word_le_nat_alt [THEN iffD1]])
  then show ?thesis by simp
qed

lemma ldigits_hex: "n < 16 \<Longrightarrow> is_lower_hex (ldigits ! n)"
proof -
  assume n: "n < 16"
  have "list_all is_lower_hex (take 16 ldigits)"
    by (simp add: ldigits_def is_lower_hex_def)
  moreover have "length (take 16 ldigits) = 16"
    by (simp add: ldigits_def)
  ultimately have "is_lower_hex (take 16 ldigits ! n)"
    using n by (simp add: list_all_length)
  then show ?thesis
    using n by simp
qed

lemma length_hex: "length (hex k) = 2 * length k"
  by (induction k) (simp_all add: hex_def hex_byte_def)

lemma hex_lower: "c \<in> set (hex k) \<Longrightarrow> is_lower_hex c"
  by (auto simp: hex_def hex_byte_def ldigits_hex hi_nibble lo_nibble)

lemma keyToString_ok:
  "length d = lenHash \<Longrightarrow> keyToString d = Inr (hashPrefix @ take lenHashKey (hex d))"
  by (simp add: keyToString_def slice_upto_def lenKey_def lenHashKey_def lenHash_def length_hex)

subsection \<open>The key codec\<close>

text \<open>
  C1: for every digest of exactly \<open>lenHash\<close> = 64 bytes, \<open>keyToString\<close> (and \<open>HashToKey\<close>
  of a hash with that sum) returns \<open>sha512-\<close> followed by exactly \<open>lenHashKey\<close> lowercase
  hexadecimal characters, which are the first half of the 128 characters of the digest
  in hexadecimal; the key has the fixed length \<open>lenKey\<close>.
\<close>

theorem keyToString_format:
  assumes "length d = lenHash"
  shows "lenHash = 64
    \<and> keyToString d = Inr (hashPrefix @ take lenHashKey (hex d))
    \<and> (\<forall>h. Sum h = d \<longrightarrow> HashToKey h = Inr (hashPrefix @ take lenHashKey (hex d)))
    \<and> hashPrefix = ''sha512-''
    \<and> length (hex d) = 128
    \<and> take lenHashKey (hex d) = take (length (hex d) div 2) (hex d)
    \<and> length (take lenHashKey (hex d)) = lenHashKey
    \<and> list_all is_lower_hex (take lenHashKey (hex d))
    \<and> length (hashPrefix @ take lenHashKey (hex d)) = lenKey"
proof -
  have len: "length (hex d) = 128"
    using assms by (simp add: length_hex lenHash_def)
  have key: "keyToString d = Inr (hashPrefix @ take lenHashKey (hex d))"
    using assms by (rule keyToString_ok)
  have hash: "\<forall>h. Sum h = d \<longrightarrow> HashToKey h = Inr (hashPrefix @ take lenHashKey (hex d))"
    using key by (simp add: HashToKey_def)
  have half: "take lenHashKey (hex d) = take (length (hex d) div 2) (hex d)"
    using len by (simp add: lenHashKey_def lenHash_def)
  have n: "length (take lenHashKey (hex d)) = lenHashKey"
    using len by (simp add: lenHashKey_def lenHash_def)
  have lower: "list_all is_lower_hex (take lenHashKey (hex d))"
    by (auto simp: list_all_iff hex_lower dest: in_set_takeD)
  have total: "length (hashPrefix @ take lenHashKey (hex d)) = lenKey"
    using n by (simp add: lenKey_def)
  have a: "lenHash = 64" by (simp add: lenHash_def)
  have b: "hashPrefix = ''sha512-''" by (simp add: hashPrefix_def)
  show ?thesis
    using a key hash b len half n lower total by blast
qed

theorem keyToString_format_witness:
  "length (map of_nat [0..<64] :: byte list) = lenHash
   \<and> keyToString (map of_nat [0..<64])
       = Inr ''sha512-000102030405060708090a0b0c0d0e0f101112131415161718191a1b1c1d1e1f''
   \<and> HashToKey \<lparr>digest_of = (\<lambda>bs. map of_nat [0..<64]), written = []\<rparr>
       = Inr ''sha512-000102030405060708090a0b0c0d0e0f101112131415161718191a1b1c1d1e1f''"
proof -
  let ?d = "map of_nat [0..<64] :: byte list"
  let ?h = "\<lparr>digest_of = (\<lambda>bs. ?d), written = []\<rparr>"
  have h: "length ?d = lenHash"
    by (simp add: lenHash_def)
  have x: "hashPrefix @ take lenHashKey (hex ?d)
      = ''sha512-000102030405060708090a0b0c0d0e0f101112131415161718191a1b1c1d1e1f''"
    by code_simp
  have s: "Sum ?h = ?d"
    by (simp add: Sum_def)
  have 1: "keyToString ?d = Inr (hashPrefix @ take lenHashKey (hex ?d))"
    using keyToString_format [OF h] by (rule conjunct1 [OF conjunct2])
  have "\<forall>h. Sum h = ?d \<longrightarrow> HashToKey h = Inr (hashPrefix @ take lenHashKey (hex ?d))"
    using keyToString_format [OF h] by (rule conjunct1 [OF conjunct2 [OF conjunct2]])
  then have 2: "HashToKey ?h = Inr (hashPrefix @ take lenHashKey (hex ?d))"
    using s by blast
  show ?thesis
    using h 1 2 unfolding x by (intro conjI)
qed

text \<open>
  C8: \<open>keyToString\<close>, and \<open>HashToKey\<close> through it, panics for every byte slice whose
  length is not \<open>lenHash\<close>; it has no error result, and for a slice of that length it
  does not panic.
\<close>

theorem keyToString_panics:
  "(length k \<noteq> lenHash \<longrightarrow>
      keyToString k = Inl (BadHash (hex k))
      \<and> (\<forall>h. Sum h = k \<longrightarrow> HashToKey h = Inl (BadHash (hex k))))
   \<and> (length k = lenHash \<longrightarrow> (\<exists>s. keyToString k = Inr s))"
  by (simp add: keyToString_def HashToKey_def slice_upto_def length_hex lenKey_eq lenHash_def)

theorem keyToString_panics_witness:
  "length [1, 2, 3 :: byte] \<noteq> lenHash
   \<and> keyToString [1, 2, 3] = Inl (BadHash ''010203'')
   \<and> HashToKey \<lparr>digest_of = take 3, written = [1, 2, 3, 4]\<rparr> = Inl (BadHash ''010203'')
   \<and> length image_sha512 = lenHash
   \<and> (\<exists>s. keyToString image_sha512 = Inr s)"
proof -
  have h: "length [1, 2, 3 :: byte] \<noteq> lenHash"
    by (simp add: lenHash_def)
  have x: "hex [1, 2, 3] = ''010203''"
    by code_simp
  have s: "Sum \<lparr>digest_of = take 3, written = [1, 2, 3, 4]\<rparr> = [1, 2, 3]"
    by (simp add: Sum_def)
  have l: "length image_sha512 = lenHash"
    by (simp add: image_sha512_def lenHash_def)
  have 1: "keyToString [1, 2, 3] = Inl (BadHash ''010203'')
      \<and> HashToKey \<lparr>digest_of = take 3, written = [1, 2, 3, 4]\<rparr> = Inl (BadHash ''010203'')"
    using h x s keyToString_panics [of "[1, 2, 3]"] by simp
  have 2: "\<exists>s. keyToString image_sha512 = Inr s"
    using l keyToString_panics [of image_sha512] by blast
  show ?thesis
    using h 1 l 2 by (intro conjI) simp_all
qed

subsection \<open>The paths through \<^verbatim>\<open>WriteACI\<close>\<close>

lemma fst_Peek: "fst (Peek n r) = take n (data r)"
  by (simp add: Peek_def)

lemma Copy_tee_Inr:
  "Copy_tee werr dr h = Inr (fh, h') \<Longrightarrow>
     ending dr = EOF \<and> fh = data dr \<and> h' = h\<lparr>written := written h @ data dr\<rparr>"
  by (auto simp: Copy_tee_def split: option.splits ioerr.splits if_splits)

lemma read_image_Inr:
  assumes "read_image c os r = Inr (fh, im, h)"
  shows "\<exists>typ dr.
      DetectFileType c (take 512 (data r)) = Inr typ
    \<and> decompress c r typ = Inr dr
    \<and> ending dr = EOF
    \<and> fh = data dr
    \<and> h = \<lparr>digest_of = sha512 c, written = data dr\<rparr>
    \<and> ManifestFromImage c (data dr) = Inr im"
  using assms unfolding read_image_def
  by (auto simp: fst_Peek [symmetric] sha512_New_def
      split: prod.splits option.splits sum.splits ioerr.splits dest!: Copy_tee_Inr)


lemma read_image_ok:
  assumes "\<forall>e. ending r \<noteq> Other e \<or> 512 \<le> length (data r)"
    and "DetectFileType c (take 512 (data r)) = Inr typ"
    and "decompress c r typ = Inr dr"
    and "ending dr = EOF"
    and "tmpFile_err os = None" and "Copy_err os = None" and "Close_err os = None"
    and "ManifestFromImage c (data dr) = Inr im"
  shows "read_image c os r = Inr (data dr, im, \<lparr>digest_of = sha512 c, written = data dr\<rparr>)"
proof -
  obtain perr where p: "Peek 512 r = (take 512 (data r), perr)" and pe: "\<forall>e. perr \<noteq> Some (Other e)"
    using assms(1) by (cases "512 \<le> length (data r)") (auto simp: Peek_def)
  have cp: "Copy_tee (Copy_err os) dr (sha512_New c)
      = Inr (data dr, \<lparr>digest_of = sha512 c, written = data dr\<rparr>)"
    using assms(4,6) by (simp add: Copy_tee_def sha512_New_def)
  show ?thesis
    using p pe assms(2,3,5,7,8) cp
    unfolding read_image_def
    by (auto split: option.splits ioerr.splits)
qed

lemma HashToKey_sha512:
  "HashToKey \<lparr>digest_of = sha512 c, written = B\<rparr> = keyToString (sha512 c B)"
  by (simp add: HashToKey_def Sum_def)

lemma WriteACI_path_read:
  "read_image c os r = Inl e \<Longrightarrow> WriteACI c dbo os ds r = (Inl e, ds)"
  by (simp add: WriteACI_def Import_def Write_def)

lemma WriteACI_path_panic:
  "read_image c os r = Inr (fh, im, h) \<Longrightarrow> HashToKey h = Inl p \<Longrightarrow>
     WriteACI c dbo os ds r = (Inl (Panicked p), ds)"
  by (simp add: WriteACI_def Import_def Write_def)

lemma WriteACI_path_import:
  "read_image c os r = Inr (fh, im, h) \<Longrightarrow> HashToKey h = Inr key \<Longrightarrow> Import_err os = Some e \<Longrightarrow>
     WriteACI c dbo os ds r = (Inl (ErrImporting e), ds)"
  by (simp add: WriteACI_def Import_def Write_def)

lemma WriteACI_path_marshal:
  "read_image c os r = Inr (fh, im, h) \<Longrightarrow> HashToKey h = Inr key \<Longrightarrow> Import_err os = None \<Longrightarrow>
   Marshal c im = Inl e \<Longrightarrow>
     WriteACI c dbo os ds r = (Inl (ErrMarshalling e), ds\<lparr>blob := AList.update key fh (blob ds)\<rparr>)"
  by (simp add: WriteACI_def Import_def Write_def)

lemma WriteACI_path_write:
  "read_image c os r = Inr (fh, im, h) \<Longrightarrow> HashToKey h = Inr key \<Longrightarrow> Import_err os = None \<Longrightarrow>
   Marshal c im = Inr imj \<Longrightarrow> Write_err os = Some e \<Longrightarrow>
     WriteACI c dbo os ds r
       = (Inl (ErrImportingManifest e), ds\<lparr>blob := AList.update key fh (blob ds)\<rparr>)"
  by (simp add: WriteACI_def Import_def Write_def)

lemma WriteACI_path_aciinfo:
  "read_image c os r = Inr (fh, im, h) \<Longrightarrow> HashToKey h = Inr key \<Longrightarrow> Import_err os = None \<Longrightarrow>
   Marshal c im = Inr imj \<Longrightarrow> Write_err os = None \<Longrightarrow>
   WriteACIInfo dbo \<lparr>BlobKey = key, AppName = Name_String c im, ImportTime = Now os\<rparr> (db ds) = Inl e \<Longrightarrow>
     WriteACI c dbo os ds r
       = (Inl (ErrWritingACIInfo e),
          ds\<lparr>blob := AList.update key fh (blob ds),
             imageManifest := AList.update key imj (imageManifest ds)\<rparr>)"
  by (simp add: WriteACI_def Import_def Write_def Do_def)

lemma WriteACI_path_done:
  "read_image c os r = Inr (fh, im, h) \<Longrightarrow> HashToKey h = Inr key \<Longrightarrow> Import_err os = None \<Longrightarrow>
   Marshal c im = Inr imj \<Longrightarrow> Write_err os = None \<Longrightarrow>
   WriteACIInfo dbo \<lparr>BlobKey = key, AppName = Name_String c im, ImportTime = Now os\<rparr> (db ds) = Inr d \<Longrightarrow>
     WriteACI c dbo os ds r
       = (Inr key,
          ds\<lparr>blob := AList.update key fh (blob ds),
             imageManifest := AList.update key imj (imageManifest ds),
             db := d\<rparr>)"
  by (simp add: WriteACI_def Import_def Write_def Do_def)

lemma WriteACI_cases:
  obtains
    (early) e where "read_image c os r = Inl e"
      and "WriteACI c dbo os ds r = (Inl e, ds)"
  | (panicked) fh im h p where "read_image c os r = Inr (fh, im, h)"
      and "WriteACI c dbo os ds r = (Inl (Panicked p), ds)"
  | (importing) fh im h e where "read_image c os r = Inr (fh, im, h)"
      and "WriteACI c dbo os ds r = (Inl (ErrImporting e), ds)"
  | (marshalling) fh im h key e where "read_image c os r = Inr (fh, im, h)"
      and "HashToKey h = Inr key"
      and "WriteACI c dbo os ds r
             = (Inl (ErrMarshalling e), ds\<lparr>blob := AList.update key fh (blob ds)\<rparr>)"
  | (writing) fh im h key e where "read_image c os r = Inr (fh, im, h)"
      and "HashToKey h = Inr key"
      and "WriteACI c dbo os ds r
             = (Inl (ErrImportingManifest e), ds\<lparr>blob := AList.update key fh (blob ds)\<rparr>)"
  | (aciinfo) fh im h key imj e where "read_image c os r = Inr (fh, im, h)"
      and "HashToKey h = Inr key"
      and "WriteACI c dbo os ds r
             = (Inl (ErrWritingACIInfo e),
                ds\<lparr>blob := AList.update key fh (blob ds),
                   imageManifest := AList.update key imj (imageManifest ds)\<rparr>)"
  | (stored) fh im h key imj d where "read_image c os r = Inr (fh, im, h)"
      and "HashToKey h = Inr key"
      and "Marshal c im = Inr imj"
      and "WriteACIInfo dbo \<lparr>BlobKey = key, AppName = Name_String c im, ImportTime = Now os\<rparr> (db ds) = Inr d"
      and "WriteACI c dbo os ds r
             = (Inr key,
                ds\<lparr>blob := AList.update key fh (blob ds),
                   imageManifest := AList.update key imj (imageManifest ds),
                   db := d\<rparr>)"
proof (cases "read_image c os r")
  case (Inl e)
  show ?thesis by (rule early [OF Inl WriteACI_path_read [OF Inl]])
next
  case (Inr x)
  then obtain fh im h where ri: "read_image c os r = Inr (fh, im, h)"
    by (cases x) auto
  show ?thesis
  proof (cases "HashToKey h")
    case (Inl p)
    show ?thesis by (rule panicked [OF ri WriteACI_path_panic [OF ri Inl]])
  next
    case hk: (Inr key)
    show ?thesis
    proof (cases "Import_err os")
      case (Some e)
      show ?thesis by (rule importing [OF ri WriteACI_path_import [OF ri hk Some]])
    next
      case ie: None
      show ?thesis
      proof (cases "Marshal c im")
        case (Inl e)
        show ?thesis by (rule marshalling [OF ri hk WriteACI_path_marshal [OF ri hk ie Inl]])
      next
        case mj: (Inr imj)
        show ?thesis
        proof (cases "Write_err os")
          case (Some e)
          show ?thesis by (rule writing [OF ri hk WriteACI_path_write [OF ri hk ie mj Some]])
        next
          case we: None
          show ?thesis
          proof (cases "WriteACIInfo dbo \<lparr>BlobKey = key, AppName = Name_String c im, ImportTime = Now os\<rparr> (db ds)")
            case (Inl e)
            show ?thesis by (rule aciinfo [OF ri hk WriteACI_path_aciinfo [OF ri hk ie mj we Inl]])
          next
            case (Inr d)
            show ?thesis by (rule stored [OF ri hk mj Inr WriteACI_path_done [OF ri hk ie mj we Inr]])
          qed
        qed
      qed
    qed
  qed
qed

lemma map_of_update_same: "map_of (AList.update k v al) k = Some v"
  by (simp add: update_conv')

lemma WriteACI_Inr:
  assumes "WriteACI c dbo os ds r = (Inr key, ds')"
  shows "\<exists>typ dr im imj d.
      DetectFileType c (take 512 (data r)) = Inr typ
    \<and> decompress c r typ = Inr dr
    \<and> ending dr = EOF
    \<and> ManifestFromImage c (data dr) = Inr im
    \<and> keyToString (sha512 c (data dr)) = Inr key
    \<and> Marshal c im = Inr imj
    \<and> WriteACIInfo dbo \<lparr>BlobKey = key, AppName = Name_String c im, ImportTime = Now os\<rparr> (db ds) = Inr d
    \<and> ds' = ds\<lparr>blob := AList.update key (data dr) (blob ds),
               imageManifest := AList.update key imj (imageManifest ds),
               db := d\<rparr>"
proof (cases rule: WriteACI_cases [of c os r dbo ds])
  case (stored fh im h k imj d)
  from stored(5) assms have kk: "k = key"
    and st: "ds' = ds\<lparr>blob := AList.update key fh (blob ds),
               imageManifest := AList.update key imj (imageManifest ds), db := d\<rparr>"
    by simp_all
  from read_image_Inr [OF stored(1)] obtain t dr where
    "DetectFileType c (take 512 (data r)) = Inr t" "decompress c r t = Inr dr"
    "ending dr = EOF" "fh = data dr" "h = \<lparr>digest_of = sha512 c, written = data dr\<rparr>"
    "ManifestFromImage c (data dr) = Inr im"
    by blast
  moreover from this stored(2) kk have "keyToString (sha512 c (data dr)) = Inr key"
    by (simp add: HashToKey_sha512)
  ultimately show ?thesis
    using stored(3,4) kk st by blast
qed (use assms in simp_all)

lemma WriteACI_ok:
  assumes "\<forall>e. ending r \<noteq> Other e \<or> 512 \<le> length (data r)"
    and "DetectFileType c (take 512 (data r)) = Inr typ"
    and "decompress c r typ = Inr dr"
    and "ending dr = EOF"
    and "tmpFile_err os = None" and "Copy_err os = None" and "Close_err os = None"
    and "ManifestFromImage c (data dr) = Inr im"
    and "Import_err os = None" and "Write_err os = None"
    and "keyToString (sha512 c (data dr)) = Inr key"
    and "Marshal c im = Inr imj"
    and "WriteACIInfo dbo \<lparr>BlobKey = key, AppName = Name_String c im, ImportTime = Now os\<rparr> (db ds) = Inr d"
  shows "WriteACI c dbo os ds r
       = (Inr key,
          ds\<lparr>blob := AList.update key (data dr) (blob ds),
             imageManifest := AList.update key imj (imageManifest ds),
             db := d\<rparr>)"
proof -
  have ri: "read_image c os r = Inr (data dr, im, \<lparr>digest_of = sha512 c, written = data dr\<rparr>)"
    using assms(1-8) by (rule read_image_ok)
  have hk: "HashToKey \<lparr>digest_of = sha512 c, written = data dr\<rparr> = Inr key"
    using assms(11) by (simp add: HashToKey_sha512)
  show ?thesis
    using ri hk assms(9) assms(12) assms(10) assms(13) by (rule WriteACI_path_done)
qed

subsection \<open>The example import\<close>

lemma length_image_gz: "length image_gz = 138"
  unfolding image_gz_def by simp

lemma length_image_tar: "length image_tar = 2048"
  by (simp add: image_tar_def bytes_of_def manifest_json_def)

lemma length_image_sha512: "length image_sha512 = lenHash"
  by (simp add: image_sha512_def lenHash_def)

lemma detect_gz: "DetectFileType example_collab (take 512 (data gz_stream)) = Inr TypeGzip"
  by (simp add: example_collab_def gz_stream_def length_image_gz) (simp add: image_gz_def)

lemma detect_tar: "DetectFileType example_collab (take 512 (data tar_stream)) = Inr TypeTar"
  by (simp add: example_collab_def tar_stream_def image_tar_def bytes_of_def)

lemma decompress_gz: "decompress example_collab gz_stream TypeGzip = Inr tar_stream"
  by (simp add: example_collab_def gz_stream_def tar_stream_def)

lemma decompress_tar: "decompress example_collab tar_stream TypeTar = Inr tar_stream"
  by (simp add: example_collab_def)

lemma example_key: "keyToString (sha512 example_collab (data tar_stream)) = Inr example_key"
proof -
  have "sha512 example_collab (data tar_stream) = image_sha512"
    by (simp add: example_collab_def tar_stream_def)
  moreover have "keyToString image_sha512 = Inr example_key"
    by code_simp
  ultimately show ?thesis by simp
qed

lemma example_manifest:
  "ManifestFromImage example_collab (data tar_stream) = Inr example_manifest"
  "Marshal example_collab example_manifest = Inr (bytes_of manifest_json)"
  "Unmarshal example_collab (bytes_of manifest_json) = Inr example_manifest"
  "Name_String example_collab example_manifest = ''example-app''"
  by (simp_all add: example_collab_def tar_stream_def example_manifest_def)

lemma gz_short: "\<forall>e. ending gz_stream \<noteq> Other e \<or> 512 \<le> length (data gz_stream)"
  by (simp add: gz_stream_def)

lemma tar_long: "\<forall>e. ending tar_stream \<noteq> Other e \<or> 512 \<le> length (data tar_stream)"
  by (simp add: tar_stream_def)

lemma tar_EOF: "ending tar_stream = EOF"
  by (simp add: tar_stream_def)

lemma example_WriteACIInfo:
  "WriteACIInfo example_dbops i (db example_store)
     = Inr \<lparr>populated = True, version = 1, aciinfo = [i]\<rparr>"
  by (simp add: example_dbops_def example_store_def)

lemma no_faults:
  "tmpFile_err no_faults = None" "Copy_err no_faults = None" "Close_err no_faults = None"
  "Import_err no_faults = None" "Write_err no_faults = None"
  by (simp_all add: no_faults_def)

lemma example_key_eq:
  "example_key = hashPrefix @ take lenHashKey (hex (sha512 example_collab image_tar))"
proof -
  have "sha512 example_collab image_tar = image_sha512"
    by (simp add: example_collab_def)
  then have "keyToString image_sha512
      = Inr (hashPrefix @ take lenHashKey (hex (sha512 example_collab image_tar)))"
    using keyToString_ok [OF length_image_sha512] by simp
  moreover have "keyToString image_sha512 = Inr example_key"
    using example_key by (simp add: example_collab_def tar_stream_def)
  ultimately show ?thesis by simp
qed

lemma WriteACI_gz:
  "WriteACI example_collab example_dbops no_faults example_store gz_stream
     = (Inr example_key, imported_store)"
proof -
  have nf: "tmpFile_err no_faults = None" "Copy_err no_faults = None" "Close_err no_faults = None"
    "Import_err no_faults = None" "Write_err no_faults = None"
    by (simp_all add: no_faults_def)
  from WriteACI_ok [OF gz_short detect_gz decompress_gz tar_EOF nf(1) nf(2) nf(3)
      example_manifest(1) nf(4) nf(5) example_key example_manifest(2) example_WriteACIInfo]
  show ?thesis
    by (simp add: imported_store_def example_store_def example_manifest no_faults_def tar_stream_def)
qed

lemma WriteACI_tar:
  "WriteACI example_collab example_dbops no_faults example_store tar_stream
     = (Inr example_key, imported_store)"
proof -
  have nf: "tmpFile_err no_faults = None" "Copy_err no_faults = None" "Close_err no_faults = None"
    "Import_err no_faults = None" "Write_err no_faults = None"
    by (simp_all add: no_faults_def)
  from WriteACI_ok [OF tar_long detect_tar decompress_tar tar_EOF nf(1) nf(2) nf(3)
      example_manifest(1) nf(4) nf(5) example_key example_manifest(2) example_WriteACIInfo]
  show ?thesis
    by (simp add: imported_store_def example_store_def example_manifest no_faults_def tar_stream_def)
qed

subsection \<open>Determinism of the key\<close>

text \<open>
  C2: two streams whose decompressed contents are the same bytes get the same key from
  \<open>WriteACI\<close>, whatever the wrappers, the stores and the outcomes of the system calls
  of the two runs were, provided both runs return a key: the key is \<open>keyToString\<close> of
  the SHA-512 sum of the decompressed content.
\<close>

theorem WriteACI_deterministic:
  assumes "DetectFileType c (take 512 (data r1)) = Inr t1" and "decompress c r1 t1 = Inr dr1"
    and "DetectFileType c (take 512 (data r2)) = Inr t2" and "decompress c r2 t2 = Inr dr2"
    and "data dr1 = data dr2"
    and "WriteACI c dbo1 os1 ds1 r1 = (Inr k1, ds1')"
    and "WriteACI c dbo2 os2 ds2 r2 = (Inr k2, ds2')"
  shows "k1 = k2 \<and> keyToString (sha512 c (data dr1)) = Inr k1"
proof -
  from WriteACI_Inr [OF assms(6)] assms(1,2)
  have 1: "keyToString (sha512 c (data dr1)) = Inr k1" by auto
  from WriteACI_Inr [OF assms(7)] assms(3,4)
  have 2: "keyToString (sha512 c (data dr2)) = Inr k2" by auto
  from 1 2 assms(5) show ?thesis by simp
qed

theorem WriteACI_deterministic_witness:
  "DetectFileType example_collab (take 512 (data gz_stream)) = Inr TypeGzip
   \<and> decompress example_collab gz_stream TypeGzip = Inr tar_stream
   \<and> DetectFileType example_collab (take 512 (data tar_stream)) = Inr TypeTar
   \<and> decompress example_collab tar_stream TypeTar = Inr tar_stream
   \<and> WriteACI example_collab example_dbops no_faults example_store gz_stream
       = (Inr example_key, imported_store)
   \<and> WriteACI example_collab example_dbops no_faults example_store tar_stream
       = (Inr example_key, imported_store)
   \<and> keyToString (sha512 example_collab (data tar_stream)) = Inr example_key"
  using WriteACI_deterministic [OF detect_gz decompress_gz detect_tar decompress_tar refl
      WriteACI_gz WriteACI_tar]
    detect_gz decompress_gz detect_tar decompress_tar WriteACI_gz WriteACI_tar
  by simp

subsection \<open>The import scenario\<close>

text \<open>
  C3, as amended: when nothing fails, importing a compressed archive whose decompressed
  bytes are \<open>B\<close> and whose manifest has the name \<^verbatim>\<open>example-app\<close> returns the key
  \<open>K\<close> = \<^verbatim>\<open>sha512-\<close> followed by the first \<open>lenHashKey\<close> = 64 hexadecimal characters
  of the SHA-512 sum of \<open>B\<close>; afterwards \<open>ReadStream\<close> of \<open>K\<close> delivers exactly \<open>B\<close> and
  \<open>GetImageManifest\<close> of \<open>K\<close> gives a manifest with that name (JSON decoding what it
  encoded).
\<close>

theorem WriteACI_scenario:
  assumes "\<forall>e. ending r \<noteq> Other e \<or> 512 \<le> length (data r)"
    and "DetectFileType c (take 512 (data r)) = Inr typ"
    and "decompress c r typ = Inr \<lparr>data = B, ending = EOF\<rparr>"
    and "ManifestFromImage c B = Inr im" and "Name_String c im = ''example-app''"
    and "length (sha512 c B) = lenHash"
    and "Marshal c im = Inr imj" and "Unmarshal c imj = Inr im"
    and "tmpFile_err os = None" and "Copy_err os = None" and "Close_err os = None"
    and "Import_err os = None" and "Write_err os = None"
    and "K = hashPrefix @ take lenHashKey (hex (sha512 c B))"
    and "WriteACIInfo dbo \<lparr>BlobKey = K, AppName = ''example-app'', ImportTime = Now os\<rparr> (db ds) = Inr d"
  shows "lenHashKey = 64
    \<and> (\<exists>ds'. WriteACI c dbo os ds r = (Inr K, ds')
          \<and> ReadStream ds' K = Inr \<lparr>data = B, ending = EOF\<rparr>
          \<and> (\<exists>im'. GetImageManifest c ds' K = Inr im' \<and> Name_String c im' = ''example-app''))"
proof -
  let ?dr = "\<lparr>data = B, ending = EOF\<rparr>"
  let ?ds' = "ds\<lparr>blob := AList.update K B (blob ds),
                 imageManifest := AList.update K imj (imageManifest ds), db := d\<rparr>"
  have k: "keyToString (sha512 c (data ?dr)) = Inr K"
    using assms(6,14) by (simp add: keyToString_ok)
  have w: "WriteACI c dbo os ds r = (Inr K, ?ds')"
  proof -
    have e: "ending ?dr = EOF" by simp
    have m: "ManifestFromImage c (data ?dr) = Inr im" using assms(4) by simp
    have i: "WriteACIInfo dbo \<lparr>BlobKey = K, AppName = Name_String c im, ImportTime = Now os\<rparr> (db ds)
        = Inr d"
      using assms(5,15) by simp
    from WriteACI_ok [OF assms(1) assms(2) assms(3) e assms(9) assms(10) assms(11) m
        assms(12) assms(13) k assms(7) i]
    show ?thesis by simp
  qed
  have rd: "ReadStream ?ds' K = Inr \<lparr>data = B, ending = EOF\<rparr>"
    by (simp add: ReadStream_def ReadStream_diskv_def Read_def map_of_update_same)
  have gm: "GetImageManifest c ?ds' K = Inr im"
    using assms(8) by (simp add: GetImageManifest_def Read_def map_of_update_same)
  have n: "lenHashKey = 64" by (simp add: lenHashKey_def lenHash_def)
  show ?thesis using n w rd gm assms(5) by blast
qed

theorem WriteACI_scenario_witness:
  "DetectFileType example_collab (take 512 (data gz_stream)) = Inr TypeGzip
   \<and> decompress example_collab gz_stream TypeGzip = Inr \<lparr>data = image_tar, ending = EOF\<rparr>
   \<and> ManifestFromImage example_collab image_tar = Inr example_manifest
   \<and> Name_String example_collab example_manifest = ''example-app''
   \<and> length (sha512 example_collab image_tar) = lenHash
   \<and> example_key = hashPrefix @ take lenHashKey (hex (sha512 example_collab image_tar))
   \<and> (\<exists>ds'. WriteACI example_collab example_dbops no_faults example_store gz_stream
               = (Inr example_key, ds')
          \<and> ReadStream ds' example_key = Inr \<lparr>data = image_tar, ending = EOF\<rparr>
          \<and> (\<exists>im'. GetImageManifest example_collab ds' example_key = Inr im'
                \<and> Name_String example_collab im' = ''example-app''))"
proof -
  have d: "decompress example_collab gz_stream TypeGzip = Inr \<lparr>data = image_tar, ending = EOF\<rparr>"
    using decompress_gz by (simp add: tar_stream_def)
  have m: "ManifestFromImage example_collab image_tar = Inr example_manifest"
    using example_manifest(1) by (simp add: tar_stream_def)
  have l: "length (sha512 example_collab image_tar) = lenHash"
    by (simp add: example_collab_def length_image_sha512)
  have i: "WriteACIInfo example_dbops
      \<lparr>BlobKey = example_key, AppName = ''example-app'', ImportTime = Now no_faults\<rparr>
      (db example_store)
    = Inr \<lparr>populated = True, version = 1,
           aciinfo = [\<lparr>BlobKey = example_key, AppName = ''example-app'', ImportTime = Now no_faults\<rparr>]\<rparr>"
    by (rule example_WriteACIInfo)
  from WriteACI_scenario [OF gz_short detect_gz d m example_manifest(4) l example_manifest(2)
      example_manifest(3) no_faults(1) no_faults(2) no_faults(3) no_faults(4) no_faults(5)
      example_key_eq i]
  have "\<exists>ds'. WriteACI example_collab example_dbops no_faults example_store gz_stream
               = (Inr example_key, ds')
          \<and> ReadStream ds' example_key = Inr \<lparr>data = image_tar, ending = EOF\<rparr>
          \<and> (\<exists>im'. GetImageManifest example_collab ds' example_key = Inr im'
                \<and> Name_String example_collab im' = ''example-app'')"
    by (rule conjunct2)
  then show ?thesis
    using detect_gz d m example_manifest(4) l example_key_eq by blast
qed

text \<open>
  C3 as the specification states it, with the first 32 hexadecimal characters, fails:
  the import of the example archive returns a key with 64 of them.
\<close>

theorem WriteACI_scenario_counterexample:
  "DetectFileType example_collab (take 512 (data gz_stream)) = Inr TypeGzip
   \<and> decompress example_collab gz_stream TypeGzip = Inr \<lparr>data = image_tar, ending = EOF\<rparr>
   \<and> ManifestFromImage example_collab image_tar = Inr example_manifest
   \<and> name example_manifest = ''example-app''
   \<and> fst (WriteACI example_collab example_dbops no_faults example_store gz_stream)
       = Inr ''sha512-623cf362f2edfaedfd00a4e362dec37093b5d12e8f1e702ca4cef4cc665ec0d3''
   \<and> hashPrefix @ take 32 (hex (sha512 example_collab image_tar))
       = ''sha512-623cf362f2edfaedfd00a4e362dec370''
   \<and> fst (WriteACI example_collab example_dbops no_faults example_store gz_stream)
       \<noteq> Inr (hashPrefix @ take 32 (hex (sha512 example_collab image_tar)))"
proof -
  have d: "decompress example_collab gz_stream TypeGzip = Inr \<lparr>data = image_tar, ending = EOF\<rparr>"
    using decompress_gz by (simp add: tar_stream_def)
  have m: "ManifestFromImage example_collab image_tar = Inr example_manifest"
    using example_manifest(1) by (simp add: tar_stream_def)
  have n: "name example_manifest = ''example-app''"
    by (simp add: example_manifest_def)
  have w: "fst (WriteACI example_collab example_dbops no_faults example_store gz_stream)
       = Inr ''sha512-623cf362f2edfaedfd00a4e362dec37093b5d12e8f1e702ca4cef4cc665ec0d3''"
    using WriteACI_gz by (simp add: example_key_def)
  have "hashPrefix @ take 32 (hex image_sha512) = ''sha512-623cf362f2edfaedfd00a4e362dec370''"
    by code_simp
  then have h: "hashPrefix @ take 32 (hex (sha512 example_collab image_tar))
       = ''sha512-623cf362f2edfaedfd00a4e362dec370''"
    by (simp add: example_collab_def)
  have ne: "fst (WriteACI example_collab example_dbops no_faults example_store gz_stream)
       \<noteq> Inr (hashPrefix @ take 32 (hex (sha512 example_collab image_tar)))"
    unfolding w h by simp
  show ?thesis
    using detect_gz d m n w h ne by blast
qed

subsection \<open>The order of the commits\<close>



subsection \<open>The peek at the header\<close>

text \<open>
  C9: a stream that ends with \<^verbatim>\<open>io.EOF\<close> before 512 bytes is not an error of the
  peek: the type is detected on the bytes there are, and an error of detection or of
  decompression is what is returned. Any other error of the peek is returned as
  \<open>ErrReadingHeader\<close>. The peeked bytes are not lost: the decompressor gets the whole
  stream, and all it delivers is hashed and stored.
\<close>

theorem WriteACI_peek_eof:
  "(length (data r) < 512 \<and> ending r = Other e \<longrightarrow>
       WriteACI c dbo os ds r = (Inl (ErrReadingHeader e), ds))
   \<and> (length (data r) < 512 \<and> ending r = EOF \<longrightarrow>
         Peek 512 r = (data r, Some EOF)
       \<and> (\<forall>e'. fst (WriteACI c dbo os ds r) \<noteq> Inl (ErrReadingHeader e'))
       \<and> (\<forall>e'. DetectFileType c (data r) = Inl e' \<longrightarrow>
              WriteACI c dbo os ds r = (Inl (ErrDetecting e'), ds))
       \<and> (\<forall>typ e'. DetectFileType c (data r) = Inr typ \<and> decompress c r typ = Inl e' \<longrightarrow>
              WriteACI c dbo os ds r = (Inl (ErrDecompressing e'), ds)))
   \<and> (\<forall>key ds'. WriteACI c dbo os ds r = (Inr key, ds') \<longrightarrow>
         (\<exists>typ dr. DetectFileType c (take 512 (data r)) = Inr typ
            \<and> decompress c r typ = Inr dr
            \<and> ending dr = EOF
            \<and> keyToString (sha512 c (data dr)) = Inr key
            \<and> map_of (blob ds') key = Some (data dr)))"
  (is "?err \<and> ?eof \<and> ?full")
proof -
  have 1: ?err
    by (simp add: WriteACI_def read_image_def Peek_def)
  have 2: ?eof
  proof (intro impI, elim conjE)
    assume s: "length (data r) < 512" and e: "ending r = EOF"
    have p: "Peek 512 r = (data r, Some EOF)"
      using s e by (simp add: Peek_def)
    have a: "\<forall>e'. fst (WriteACI c dbo os ds r) \<noteq> Inl (ErrReadingHeader e')"
    proof (cases rule: WriteACI_cases [of c os r dbo ds])
      case (early x)
      have "\<forall>e'. x \<noteq> ErrReadingHeader e'"
        using early(1) p unfolding read_image_def
        by (auto split: prod.splits option.splits sum.splits ioerr.splits)
      then show ?thesis using early(2) by simp
    qed simp_all
    have b: "\<forall>e'. DetectFileType c (data r) = Inl e' \<longrightarrow>
              WriteACI c dbo os ds r = (Inl (ErrDetecting e'), ds)"
      using p by (simp add: WriteACI_def read_image_def)
    have d: "\<forall>typ e'. DetectFileType c (data r) = Inr typ \<and> decompress c r typ = Inl e' \<longrightarrow>
              WriteACI c dbo os ds r = (Inl (ErrDecompressing e'), ds)"
      using p by (simp add: WriteACI_def read_image_def)
    show "Peek 512 r = (data r, Some EOF)
       \<and> (\<forall>e'. fst (WriteACI c dbo os ds r) \<noteq> Inl (ErrReadingHeader e'))
       \<and> (\<forall>e'. DetectFileType c (data r) = Inl e' \<longrightarrow>
              WriteACI c dbo os ds r = (Inl (ErrDetecting e'), ds))
       \<and> (\<forall>typ e'. DetectFileType c (data r) = Inr typ \<and> decompress c r typ = Inl e' \<longrightarrow>
              WriteACI c dbo os ds r = (Inl (ErrDecompressing e'), ds))"
      using p a b d by blast
  qed
  have 3: ?full
  proof (intro allI impI)
    fix key ds'
    assume w: "WriteACI c dbo os ds r = (Inr key, ds')"
    from WriteACI_Inr [OF w] obtain t dr imj d where
      f: "DetectFileType c (take 512 (data r)) = Inr t" "decompress c r t = Inr dr"
        "ending dr = EOF" "keyToString (sha512 c (data dr)) = Inr key"
      and st: "ds' = ds\<lparr>blob := AList.update key (data dr) (blob ds),
               imageManifest := AList.update key imj (imageManifest ds), db := d\<rparr>"
      by blast
    have "map_of (blob ds') key = Some (data dr)"
      using st by (simp add: map_of_update_same)
    with f show "\<exists>typ dr. DetectFileType c (take 512 (data r)) = Inr typ
            \<and> decompress c r typ = Inr dr
            \<and> ending dr = EOF
            \<and> keyToString (sha512 c (data dr)) = Inr key
            \<and> map_of (blob ds') key = Some (data dr)"
      by blast
  qed
  show ?thesis using 1 2 3 by blast
qed

theorem WriteACI_peek_eof_witness:
  "length (data gz_stream) < 512 \<and> ending gz_stream = EOF
   \<and> Peek 512 gz_stream = (data gz_stream, Some EOF)
   \<and> WriteACI example_collab example_dbops no_faults example_store gz_stream
       = (Inr example_key, imported_store)
   \<and> (\<exists>t dr. DetectFileType example_collab (take 512 (data gz_stream)) = Inr t
         \<and> decompress example_collab gz_stream t = Inr dr
         \<and> ending dr = EOF
         \<and> keyToString (sha512 example_collab (data dr)) = Inr example_key
         \<and> map_of (blob imported_store) example_key = Some (data dr))
   \<and> WriteACI example_collab example_dbops no_faults example_store
         \<lparr>data = take 10 image_gz, ending = Other ''connection reset by peer''\<rparr>
       = (Inl (ErrReadingHeader ''connection reset by peer''), example_store)
   \<and> DetectFileType example_collab (data \<lparr>data = [], ending = EOF\<rparr>) = Inr TypeUnknown
   \<and> decompress example_collab \<lparr>data = [], ending = EOF\<rparr> TypeUnknown = Inl ''unknown file type''
   \<and> WriteACI example_collab example_dbops no_faults example_store \<lparr>data = [], ending = EOF\<rparr>
       = (Inl (ErrDecompressing ''unknown file type''), example_store)"
proof -
  have s: "length (data gz_stream) < 512" and e: "ending gz_stream = EOF"
    by (simp_all add: gz_stream_def length_image_gz)
  have p: "Peek 512 gz_stream = (data gz_stream, Some EOF)"
    using WriteACI_peek_eof [of gz_stream _ example_collab example_dbops no_faults example_store]
      s e by blast
  have f: "\<exists>t dr. DetectFileType example_collab (take 512 (data gz_stream)) = Inr t
         \<and> decompress example_collab gz_stream t = Inr dr
         \<and> ending dr = EOF
         \<and> keyToString (sha512 example_collab (data dr)) = Inr example_key
         \<and> map_of (blob imported_store) example_key = Some (data dr)"
    using WriteACI_peek_eof [of gz_stream _ example_collab example_dbops no_faults example_store]
      WriteACI_gz by blast
  have b: "WriteACI example_collab example_dbops no_faults example_store
         \<lparr>data = take 10 image_gz, ending = Other ''connection reset by peer''\<rparr>
       = (Inl (ErrReadingHeader ''connection reset by peer''), example_store)"
    using WriteACI_peek_eof [of "\<lparr>data = take 10 image_gz, ending = Other ''connection reset by peer''\<rparr>"
        "''connection reset by peer''" example_collab example_dbops no_faults example_store]
    by simp
  have dt: "DetectFileType example_collab (data \<lparr>data = [], ending = EOF\<rparr>) = Inr TypeUnknown"
    by (simp add: example_collab_def bytes_of_def)
  have dc: "decompress example_collab \<lparr>data = [], ending = EOF\<rparr> TypeUnknown = Inl ''unknown file type''"
    by (simp add: example_collab_def)
  have u: "WriteACI example_collab example_dbops no_faults example_store \<lparr>data = [], ending = EOF\<rparr>
       = (Inl (ErrDecompressing ''unknown file type''), example_store)"
    using WriteACI_peek_eof [of "\<lparr>data = [], ending = EOF\<rparr>" _ example_collab example_dbops
        no_faults example_store] dt dc
    by simp
  show ?thesis using s e p WriteACI_gz f b dt dc u by (intro conjI)
qed

subsection \<open>Resolving keys\<close>

lemma normalizeKey_take: "normalizeKey key = take lenKey key"
  by (simp add: normalizeKey_def)

lemma range_loop_start:
  "range_loop ms k 0 =
     (case ms of
        [] \<Rightarrow> (k, 0, False, [])
      | [a] \<Rightarrow> (a, 1, False, [])
      | a # b # rest \<Rightarrow> (b, 2, True, rest))"
  by (simp split: list.splits)

lemma ResolveKey_eq:
  "ResolveKey ds partial =
     (case KeysPrefix (blob ds) (normalizeKey partial) of
        [] \<Rightarrow> Inl NoKeysFound
      | [k] \<Rightarrow> Inr k
      | _ # _ # _ \<Rightarrow> Inl (AmbiguousKey (normalizeKey partial)))"
  by (simp add: ResolveKey_def range_loop_start Let_def split: list.splits)

lemma filter_eq_distinct:
  "distinct xs \<Longrightarrow> filter (\<lambda>x. x = k) xs = (if k \<in> set xs then [k] else [])"
  by (induction xs) auto

lemma filter_unique:
  assumes "distinct xs" and "k \<in> set xs" and "P k"
    and "\<forall>k' \<in> set xs. P k' \<longrightarrow> k' = k"
  shows "filter P xs = [k]"
proof -
  have "filter P xs = filter (\<lambda>x. x = k) xs"
    using assms(3,4) by (intro filter_cong) auto
  then show ?thesis
    using assms(1,2) by (simp add: filter_eq_distinct)
qed

lemma filter_two:
  assumes "k1 \<in> set xs" "k2 \<in> set xs" "k1 \<noteq> k2" "P k1" "P k2"
  shows "\<exists>a b rest. filter P xs = a # b # rest"
proof -
  let ?ys = "filter P xs"
  have "{k1, k2} \<subseteq> set ?ys" using assms by simp
  then have "card {k1, k2} \<le> card (set ?ys)"
    by (intro card_mono) simp_all
  also have "\<dots> \<le> length ?ys" by (rule card_length)
  finally have len: "2 \<le> length ?ys" using assms(3) by simp
  show ?thesis
  proof (cases ?ys)
    case Nil
    with len show ?thesis by simp
  next
    case outer: (Cons a as)
    show ?thesis
    proof (cases as)
      case Nil
      with outer len show ?thesis by simp
    next
      case (Cons b rest)
      with outer show ?thesis by simp
    qed
  qed
qed

lemma WriteStream_distinct:
  "distinct (map fst (blob ds)) \<Longrightarrow> distinct (map fst (blob (snd (WriteStream werr ds key r))))"
  by (simp add: WriteStream_def WriteStream_diskv_def Write_def distinct_update
      split: ioerr.splits option.splits)

lemma WriteACI_distinct:
  assumes "distinct (map fst (blob ds))"
  shows "distinct (map fst (blob (snd (WriteACI c dbo os ds r))))"
  by (cases rule: WriteACI_cases [of c os r dbo ds]) (simp_all add: assms distinct_update)

lemma length_example_key: "length example_key = lenKey"
  by (simp add: example_key_def lenKey_eq)

lemma blob_ambiguous:
  "blob ambiguous_store = [(example_key @ ''a'', image_tar), (example_key @ ''b'', image_gz)]"
  by (simp add: ambiguous_store_def WriteStream_def WriteStream_diskv_def Write_def
      tar_stream_def gz_stream_def example_store_def)

lemma normalize_garbage: "normalizeKey (example_key @ ''-extra-garbage'') = example_key"
  by (simp add: normalizeKey_take length_example_key)

text \<open>
  C4, as amended: \<open>ResolveKey\<close> normalizes its input by truncating it to \<open>lenKey\<close>
  characters. When no stored key of the blob namespace has the normalized input as a
  prefix it returns \<open>NoKeysFound\<close>; when exactly one has, it returns that key; when two
  or more have, it returns \<open>AmbiguousKey\<close> carrying the normalized input, which is the
  input itself when that is at most \<open>lenKey\<close> characters long. The loop receives at
  most two keys from the scan and closes \<^verbatim>\<open>cancel\<close> exactly when it received a second.
  (The keys of a namespace are distinct; \<open>WriteStream\<close> and \<open>WriteACI\<close> keep them so.)
\<close>

theorem ResolveKey_cases:
  "normalizeKey partial = take lenKey partial
   \<and> (length partial \<le> lenKey \<longrightarrow> normalizeKey partial = partial)
   \<and> ((\<forall>k \<in> set (map fst (blob ds)). \<not> prefix (normalizeKey partial) k) \<longrightarrow>
         ResolveKey ds partial = Inl NoKeysFound)
   \<and> (distinct (map fst (blob ds)) \<and> k \<in> set (map fst (blob ds)) \<and> prefix (normalizeKey partial) k
        \<and> (\<forall>k' \<in> set (map fst (blob ds)). prefix (normalizeKey partial) k' \<longrightarrow> k' = k) \<longrightarrow>
         ResolveKey ds partial = Inr k)
   \<and> (k1 \<in> set (map fst (blob ds)) \<and> k2 \<in> set (map fst (blob ds)) \<and> k1 \<noteq> k2
        \<and> prefix (normalizeKey partial) k1 \<and> prefix (normalizeKey partial) k2 \<longrightarrow>
         ResolveKey ds partial = Inl (AmbiguousKey (normalizeKey partial)))
   \<and> snd (range_loop (KeysPrefix (blob ds) (normalizeKey partial)) [] 0)
       = (min 2 (length (KeysPrefix (blob ds) (normalizeKey partial))),
          2 \<le> length (KeysPrefix (blob ds) (normalizeKey partial)),
          drop 2 (KeysPrefix (blob ds) (normalizeKey partial)))"
  (is "?norm \<and> ?short \<and> ?none \<and> ?one \<and> ?many \<and> ?scan")
proof -
  let ?p = "normalizeKey partial"
  let ?keys = "map fst (blob ds)"
  have 1: ?norm by (rule normalizeKey_take)
  have 2: ?short by (simp add: normalizeKey_def)
  have 3: ?none
  proof
    assume "\<forall>k \<in> set ?keys. \<not> prefix ?p k"
    then have "KeysPrefix (blob ds) ?p = []"
      unfolding KeysPrefix_def by (simp add: filter_empty_conv)
    then show "ResolveKey ds partial = Inl NoKeysFound"
      by (simp add: ResolveKey_eq)
  qed
  have 4: ?one
  proof
    assume a: "distinct ?keys \<and> k \<in> set ?keys \<and> prefix ?p k
        \<and> (\<forall>k' \<in> set ?keys. prefix ?p k' \<longrightarrow> k' = k)"
    then have "filter (prefix ?p) ?keys = [k]"
      by (intro filter_unique) blast+
    then show "ResolveKey ds partial = Inr k"
      by (simp add: ResolveKey_eq KeysPrefix_def)
  qed
  have 5: ?many
  proof
    assume a: "k1 \<in> set ?keys \<and> k2 \<in> set ?keys \<and> k1 \<noteq> k2 \<and> prefix ?p k1 \<and> prefix ?p k2"
    then obtain x y rest where "filter (prefix ?p) ?keys = x # y # rest"
      using filter_two [of k1 ?keys k2 "prefix ?p"] by blast
    then show "ResolveKey ds partial = Inl (AmbiguousKey ?p)"
      by (simp add: ResolveKey_eq KeysPrefix_def)
  qed
  have 6: ?scan
    by (simp add: range_loop_start split: list.splits)
  show ?thesis
    by (rule conjI [OF 1 conjI [OF 2 conjI [OF 3 conjI [OF 4 conjI [OF 5 6]]]]])
qed

theorem ResolveKey_cases_witness:
  "length ''sha512-623c'' \<le> lenKey \<and> normalizeKey ''sha512-623c'' = ''sha512-623c''
   \<and> ResolveKey example_store ''sha512-zz'' = Inl NoKeysFound
   \<and> ResolveKey imported_store ''sha512-623c'' = Inr example_key
   \<and> ResolveKey ambiguous_store (example_key @ ''-extra-garbage'') = Inl (AmbiguousKey example_key)
   \<and> snd (range_loop (KeysPrefix (blob ambiguous_store) example_key) [] 0) = (2, True, [])"
proof -
  have l: "length ''sha512-623c'' \<le> lenKey"
    by (simp add: lenKey_eq)
  have n: "normalizeKey ''sha512-623c'' = ''sha512-623c''"
    using ResolveKey_cases [where partial = "''sha512-623c''"] l by blast
  have 1: "ResolveKey example_store ''sha512-zz'' = Inl NoKeysFound"
    using ResolveKey_cases [where ds = example_store and partial = "''sha512-zz''"]
    by (simp add: example_store_def)
  have 2: "ResolveKey imported_store ''sha512-623c'' = Inr example_key"
    using ResolveKey_cases [where ds = imported_store and partial = "''sha512-623c''"
        and k = example_key]
    by (simp add: imported_store_def n) (simp add: example_key_def)
  have 3: "ResolveKey ambiguous_store (example_key @ ''-extra-garbage'') = Inl (AmbiguousKey example_key)"
    using ResolveKey_cases [where ds = ambiguous_store and partial = "example_key @ ''-extra-garbage''"
        and ?k1.0 = "example_key @ ''a''" and ?k2.0 = "example_key @ ''b''"]
    by (simp add: blob_ambiguous normalize_garbage)
  have 4: "snd (range_loop (KeysPrefix (blob ambiguous_store) example_key) [] 0) = (2, True, [])"
    using ResolveKey_cases [where ds = ambiguous_store and partial = "example_key @ ''-extra-garbage''"]
    by (simp add: blob_ambiguous normalize_garbage KeysPrefix_def)
  show ?thesis by (rule conjI [OF l conjI [OF n conjI [OF 1 conjI [OF 2 conjI [OF 3 4]]]]])
qed

text \<open>
  C4 as the specification states it, with the error carrying the original partial key,
  fails: in a store with two raw keys that continue one full key, an input longer than
  a full key is ambiguous, and the error carries the truncated input.
\<close>

theorem ResolveKey_cases_counterexample:
  "KeysPrefix (blob ambiguous_store) (normalizeKey (example_key @ ''-extra-garbage''))
     = [example_key @ ''a'', example_key @ ''b'']
   \<and> ResolveKey ambiguous_store (example_key @ ''-extra-garbage'') = Inl (AmbiguousKey example_key)
   \<and> ResolveKey ambiguous_store (example_key @ ''-extra-garbage'')
       \<noteq> Inl (AmbiguousKey (example_key @ ''-extra-garbage''))"
proof -
  have ms: "KeysPrefix (blob ambiguous_store) example_key
     = [example_key @ ''a'', example_key @ ''b'']"
    by (simp add: blob_ambiguous KeysPrefix_def)
  have 1: "KeysPrefix (blob ambiguous_store) (normalizeKey (example_key @ ''-extra-garbage''))
     = [example_key @ ''a'', example_key @ ''b'']"
    using ms by (simp add: normalize_garbage)
  have 2: "ResolveKey ambiguous_store (example_key @ ''-extra-garbage'') = Inl (AmbiguousKey example_key)"
    by (simp add: ResolveKey_eq ms normalize_garbage)
  have 3: "ResolveKey ambiguous_store (example_key @ ''-extra-garbage'')
       \<noteq> Inl (AmbiguousKey (example_key @ ''-extra-garbage''))"
    unfolding 2 by simp
  show ?thesis by (rule conjI [OF 1 conjI [OF 2 3]])
qed

text \<open>
  C5: \<open>ResolveKey\<close> of an input is \<open>ResolveKey\<close> of its first \<open>lenKey\<close> characters;
  so for a full key, of length \<open>lenKey\<close>, and any suffix, \<open>ResolveKey\<close> of the key
  followed by the suffix is \<open>ResolveKey\<close> of the key, result and error alike.
\<close>

theorem ResolveKey_truncation:
  "ResolveKey ds partial = ResolveKey ds (take lenKey partial)
   \<and> (length fullKey = lenKey \<longrightarrow> ResolveKey ds (fullKey @ extra) = ResolveKey ds fullKey)"
proof -
  have n: "\<And>key. normalizeKey (take lenKey key) = normalizeKey key"
    by (simp add: normalizeKey_take)
  have 1: "ResolveKey ds partial = ResolveKey ds (take lenKey partial)"
    by (simp only: ResolveKey_eq n)
  have 2: "length fullKey = lenKey \<longrightarrow> ResolveKey ds (fullKey @ extra) = ResolveKey ds fullKey"
  proof
    assume "length fullKey = lenKey"
    then have "normalizeKey (fullKey @ extra) = normalizeKey fullKey"
      by (simp add: normalizeKey_take)
    then show "ResolveKey ds (fullKey @ extra) = ResolveKey ds fullKey"
      by (simp only: ResolveKey_eq)
  qed
  show ?thesis by (rule conjI [OF 1 2])
qed

theorem ResolveKey_truncation_witness:
  "length example_key = lenKey
   \<and> ResolveKey imported_store (example_key @ ''extra-garbage'') = ResolveKey imported_store example_key
   \<and> ResolveKey imported_store example_key = Inr example_key"
proof -
  have 1: "ResolveKey imported_store (example_key @ ''extra-garbage'') = ResolveKey imported_store example_key"
    using ResolveKey_truncation [where fullKey = example_key and extra = "''extra-garbage''"
        and ds = imported_store] length_example_key
    by simp
  have "normalizeKey example_key = example_key"
    by (simp add: normalizeKey_take length_example_key)
  then have 2: "ResolveKey imported_store example_key = Inr example_key"
    by (simp add: ResolveKey_eq KeysPrefix_def imported_store_def)
  show ?thesis by (rule conjI [OF length_example_key conjI [OF 1 2]])
qed



subsection \<open>The schema guard\<close>

text \<open>
  C6: when the version read in the transaction of \<open>NewStore\<close> is less than
  \<open>dbVersion\<close>, \<open>NewStore\<close> returns the error \<open>VersionLesser\<close>; when it is greater, the
  error \<open>VersionGreater\<close>; in both cases no store is returned. \<open>NewStore\<close> returns a
  store only when the version read equals \<open>dbVersion\<close>.
\<close>

theorem NewStore_schema_guard:
  "(NewDB dbo [b, ''cas'', ''db''] = Inr d \<and> dbIsPopulated dbo d = Inr ok
      \<and> populate dbo ok d = Inr tx \<and> getDBVersion dbo tx = Inr v \<longrightarrow>
        (v < dbVersion dbo \<longrightarrow> NewStore dbo diskv_New b = Inl (VersionLesser v (dbVersion dbo)))
      \<and> (v > dbVersion dbo \<longrightarrow> NewStore dbo diskv_New b = Inl (VersionGreater v (dbVersion dbo)))
      \<and> (v = dbVersion dbo \<longrightarrow> (\<exists>ds. NewStore dbo diskv_New b = Inr ds \<and> db ds = tx)))
   \<and> (NewStore dbo diskv_New b = Inr ds \<longrightarrow>
        (\<exists>d ok. NewDB dbo [b, ''cas'', ''db''] = Inr d \<and> dbIsPopulated dbo d = Inr ok
           \<and> populate dbo ok d = Inr (db ds) \<and> getDBVersion dbo (db ds) = Inr (dbVersion dbo)))"
  (is "?fails \<and> ?only")
proof -
  have 1: ?fails
  proof
    assume a: "NewDB dbo [b, ''cas'', ''db''] = Inr d \<and> dbIsPopulated dbo d = Inr ok
      \<and> populate dbo ok d = Inr tx \<and> getDBVersion dbo tx = Inr v"
    then have fn: "NewStore_fn dbo d =
        (if v < dbVersion dbo then Inl (VersionLesser v (dbVersion dbo))
         else if v > dbVersion dbo then Inl (VersionGreater v (dbVersion dbo))
         else Inr tx)"
      by (simp add: NewStore_fn_def)
    have lt: "v < dbVersion dbo \<longrightarrow> NewStore dbo diskv_New b = Inl (VersionLesser v (dbVersion dbo))"
      using a fn by (simp add: NewStore_def Do_def)
    have gt: "v > dbVersion dbo \<longrightarrow> NewStore dbo diskv_New b = Inl (VersionGreater v (dbVersion dbo))"
      using a fn by (simp add: NewStore_def Do_def)
    have eq: "v = dbVersion dbo \<longrightarrow> (\<exists>ds. NewStore dbo diskv_New b = Inr ds \<and> db ds = tx)"
      using a fn by (simp add: NewStore_def Do_def)
    show "(v < dbVersion dbo \<longrightarrow> NewStore dbo diskv_New b = Inl (VersionLesser v (dbVersion dbo)))
      \<and> (v > dbVersion dbo \<longrightarrow> NewStore dbo diskv_New b = Inl (VersionGreater v (dbVersion dbo)))
      \<and> (v = dbVersion dbo \<longrightarrow> (\<exists>ds. NewStore dbo diskv_New b = Inr ds \<and> db ds = tx))"
      by (rule conjI [OF lt conjI [OF gt eq]])
  qed
  have 2: ?only
  proof
    assume ok: "NewStore dbo diskv_New b = Inr ds"
    then obtain d where d: "NewDB dbo [b, ''cas'', ''db''] = Inr d"
      by (cases "NewDB dbo [b, ''cas'', ''db'']") (simp_all add: NewStore_def)
    with ok have fn: "NewStore_fn dbo d = Inr (db ds)"
      by (cases "NewStore_fn dbo d") (auto simp: NewStore_def Do_def)
    then obtain p where p: "dbIsPopulated dbo d = Inr p"
      by (cases "dbIsPopulated dbo d") (simp_all add: NewStore_fn_def)
    with fn obtain tx where tx: "populate dbo p d = Inr tx"
      by (cases "populate dbo p d") (simp_all add: NewStore_fn_def)
    with fn p obtain v where v: "getDBVersion dbo tx = Inr v"
      by (cases "getDBVersion dbo tx") (simp_all add: NewStore_fn_def)
    with fn p tx have "v = dbVersion dbo \<and> tx = db ds"
      by (simp add: NewStore_fn_def split: if_splits)
    with d p tx v show "\<exists>d ok. NewDB dbo [b, ''cas'', ''db''] = Inr d \<and> dbIsPopulated dbo d = Inr ok
           \<and> populate dbo ok d = Inr (db ds) \<and> getDBVersion dbo (db ds) = Inr (dbVersion dbo)"
      by blast
  qed
  show ?thesis by (rule conjI [OF 1 2])
qed

theorem NewStore_schema_guard_witness:
  "NewStore (stored_dbops 0) (\<lambda>path. []) ''/var/lib/rkt'' = Inl (VersionLesser 0 1)
   \<and> NewStore (stored_dbops 2) (\<lambda>path. []) ''/var/lib/rkt'' = Inl (VersionGreater 2 1)
   \<and> (\<exists>ds. NewStore (stored_dbops 1) (\<lambda>path. []) ''/var/lib/rkt'' = Inr ds
         \<and> db ds = \<lparr>populated = True, version = 1, aciinfo = []\<rparr>)
   \<and> NewStore (stored_dbops 1) (\<lambda>path. []) ''/var/lib/rkt'' = Inr example_store
   \<and> getDBVersion (stored_dbops 1) (db example_store) = Inr (dbVersion (stored_dbops 1))"
proof -
  have h: "\<And>v. NewDB (stored_dbops v) [''/var/lib/rkt'', ''cas'', ''db'']
        = Inr \<lparr>populated = True, version = v, aciinfo = []\<rparr>
      \<and> dbIsPopulated (stored_dbops v) \<lparr>populated = True, version = v, aciinfo = []\<rparr> = Inr True
      \<and> populate (stored_dbops v) True \<lparr>populated = True, version = v, aciinfo = []\<rparr>
        = Inr \<lparr>populated = True, version = v, aciinfo = []\<rparr>
      \<and> getDBVersion (stored_dbops v) \<lparr>populated = True, version = v, aciinfo = []\<rparr> = Inr v
      \<and> dbVersion (stored_dbops v) = 1"
    by (simp add: stored_dbops_def example_dbops_def populate_def)
  have 1: "NewStore (stored_dbops 0) (\<lambda>path. []) ''/var/lib/rkt'' = Inl (VersionLesser 0 1)"
    using NewStore_schema_guard [where dbo = "stored_dbops 0" and b = "''/var/lib/rkt''"
        and d = "\<lparr>populated = True, version = 0, aciinfo = []\<rparr>" and ok = True
        and tx = "\<lparr>populated = True, version = 0, aciinfo = []\<rparr>" and v = 0
        and diskv_New = "\<lambda>path. []"] h [of 0]
    by simp
  have 2: "NewStore (stored_dbops 2) (\<lambda>path. []) ''/var/lib/rkt'' = Inl (VersionGreater 2 1)"
    using NewStore_schema_guard [where dbo = "stored_dbops 2" and b = "''/var/lib/rkt''"
        and d = "\<lparr>populated = True, version = 2, aciinfo = []\<rparr>" and ok = True
        and tx = "\<lparr>populated = True, version = 2, aciinfo = []\<rparr>" and v = 2
        and diskv_New = "\<lambda>path. []"] h [of 2]
    by simp
  have 3: "\<exists>ds. NewStore (stored_dbops 1) (\<lambda>path. []) ''/var/lib/rkt'' = Inr ds
         \<and> db ds = \<lparr>populated = True, version = 1, aciinfo = []\<rparr>"
    using NewStore_schema_guard [where dbo = "stored_dbops 1" and b = "''/var/lib/rkt''"
        and d = "\<lparr>populated = True, version = 1, aciinfo = []\<rparr>" and ok = True
        and tx = "\<lparr>populated = True, version = 1, aciinfo = []\<rparr>" and v = 1
        and diskv_New = "\<lambda>path. []"] h [of 1]
    by simp
  have 4: "NewStore (stored_dbops 1) (\<lambda>path. []) ''/var/lib/rkt'' = Inr example_store"
    by (simp add: NewStore_def NewStore_fn_def Do_def populate_def stored_dbops_def
        example_dbops_def example_store_def)
  have 5: "getDBVersion (stored_dbops 1) (db example_store) = Inr (dbVersion (stored_dbops 1))"
    using NewStore_schema_guard [where dbo = "stored_dbops 1" and b = "''/var/lib/rkt''"
        and ds = example_store and diskv_New = "\<lambda>path. []"] 4
    by blast
  show ?thesis by (rule conjI [OF 1 conjI [OF 2 conjI [OF 3 conjI [OF 4 5]]]])
qed

end
